theory Spec2Isabelle
  imports Main
begin

section \<open>Python string primitives used by the parser\<close>

text \<open>
  The parser works on Python 2 byte strings: a \<^typ>\<open>string\<close> is a list of 8-bit
  characters and \<open>ord\<close> is \<^const>\<open>of_char\<close>, a value between 0 and 255.
\<close>

definition ord :: "char \<Rightarrow> int" where
  "ord c = of_char c"

text \<open>\<open>s.split(sep)\<close> for a one-character separator: every occurrence cuts, so a string
  with \<open>k\<close> separators gives \<open>k + 1\<close> pieces (possibly empty ones).\<close>

fun split_on :: "char \<Rightarrow> string \<Rightarrow> string list" where
  "split_on sep [] = [[]]"
| "split_on sep (c # cs) =
     (if c = sep then [] # split_on sep cs
      else (case split_on sep cs of
              [] \<Rightarrow> [[c]]
            | p # ps \<Rightarrow> (c # p) # ps))"

definition digit_chars :: string where
  "digit_chars = ''0123456789''"

definition hex_chars :: string where
  "hex_chars = ''0123456789ABCDEFabcdef''"

text \<open>\<open>str.isdigit(s)\<close>: at least one character, all of them decimal digits.\<close>

definition str_isdigit :: "string \<Rightarrow> bool" where
  "str_isdigit s = (s \<noteq> [] \<and> list_all (\<lambda>c. c \<in> set digit_chars) s)"

text \<open>\<open>s.startswith('-')\<close>.\<close>

definition startswith_minus :: "string \<Rightarrow> bool" where
  "startswith_minus s = (case s of [] \<Rightarrow> False | c # _ \<Rightarrow> c = CHR ''-'')"

section \<open>Field validation and checksum\<close>

text \<open>The loop of \<open>good_field\<close> over the positions of \<open>field_array\<close>.\<close>

fun good_field_loop :: "string list \<Rightarrow> bool" where
  "good_field_loop [] = True"
| "good_field_loop (f # fs) =
     (if length f > 0 then
        (let start_char = (if startswith_minus f then 1 else 0 :: nat)
         in if \<not> str_isdigit (drop start_char f) then False
            else good_field_loop fs)
      else False)"

definition good_field :: "string list \<Rightarrow> bool" where
  "good_field field_array =
     (if length field_array \<noteq> 27 then False else good_field_loop field_array)"

text \<open>The loop of \<open>good_checksum\<close>: the running sum is reduced modulo 32768 after
  every addition.\<close>

fun checksum_loop :: "int \<Rightarrow> string \<Rightarrow> int" where
  "checksum_loop calculated_checksum [] = calculated_checksum"
| "checksum_loop calculated_checksum (c # cs) =
     checksum_loop ((calculated_checksum + ord c) mod 32768) cs"

definition good_checksum :: "string \<Rightarrow> int \<Rightarrow> bool" where
  "good_checksum data_array read_checksum =
     (if checksum_loop 0 data_array = read_checksum then True else False)"

section \<open>Regular expressions: the fragment of Python's \<open>re\<close> the parser uses\<close>

text \<open>
  The patterns of the parser use literals, character classes, \<open>.\<close> (any character but a
  newline), \<open>?\<close>, \<open>+\<close> and concatenation. \<open>re.search\<close> tries the start positions from
  left to right and returns the first one at which some prefix of the rest matches.
\<close>

datatype rx = Fail | Eps | Cls string | Dot | Seq rx rx | Alt rx rx | Star rx

definition Opt :: "rx \<Rightarrow> rx" where
  "Opt r = Alt r Eps"

definition Plus :: "rx \<Rightarrow> rx" where
  "Plus r = Seq r (Star r)"

fun Lit :: "string \<Rightarrow> rx" where
  "Lit [] = Eps"
| "Lit (c # cs) = Seq (Cls [c]) (Lit cs)"

fun Rep :: "nat \<Rightarrow> rx \<Rightarrow> rx" where
  "Rep 0 r = Eps"
| "Rep (Suc n) r = Seq r (Rep n r)"

definition newline :: char where
  "newline = CHR 0x0A"

inductive_set star :: "string set \<Rightarrow> string set" for A :: "string set" where
  star_nil: "[] \<in> star A"
| star_app: "u \<in> A \<Longrightarrow> v \<in> star A \<Longrightarrow> u @ v \<in> star A"

text \<open>The strings a pattern matches in full.\<close>

fun lang :: "rx \<Rightarrow> string set" where
  "lang Fail = {}"
| "lang Eps = {[]}"
| "lang (Cls cs) = {[c] | c. c \<in> set cs}"
| "lang Dot = {[c] | c. c \<noteq> newline}"
| "lang (Seq r s) = {u @ v | u v. u \<in> lang r \<and> v \<in> lang s}"
| "lang (Alt r s) = lang r \<union> lang s"
| "lang (Star r) = star (lang r)"

fun nullable :: "rx \<Rightarrow> bool" where
  "nullable Fail = False"
| "nullable Eps = True"
| "nullable (Cls cs) = False"
| "nullable Dot = False"
| "nullable (Seq r s) = (nullable r \<and> nullable s)"
| "nullable (Alt r s) = (nullable r \<or> nullable s)"
| "nullable (Star r) = True"

fun alt :: "rx \<Rightarrow> rx \<Rightarrow> rx" where
  "alt Fail s = s"
| "alt r Fail = r"
| "alt r s = Alt r s"

fun seq :: "rx \<Rightarrow> rx \<Rightarrow> rx" where
  "seq Fail s = Fail"
| "seq Eps s = s"
| "seq r s = Seq r s"

text \<open>What is left of a pattern after it has read the character \<open>c\<close>.\<close>

fun deriv :: "char \<Rightarrow> rx \<Rightarrow> rx" where
  "deriv c Fail = Fail"
| "deriv c Eps = Fail"
| "deriv c (Cls cs) = (if c \<in> set cs then Eps else Fail)"
| "deriv c Dot = (if c \<noteq> newline then Eps else Fail)"
| "deriv c (Seq r s) =
     (if nullable r then alt (seq (deriv c r) s) (deriv c s) else seq (deriv c r) s)"
| "deriv c (Alt r s) = alt (deriv c r) (deriv c s)"
| "deriv c (Star r) = seq (deriv c r) (Star r)"

text \<open>\<open>pattern.match(s)\<close> as a truth value: some prefix of \<open>s\<close> matches.\<close>

fun re_match :: "rx \<Rightarrow> string \<Rightarrow> bool" where
  "re_match r [] = nullable r"
| "re_match r (c # cs) =
     (if nullable r then True
      else (case deriv c r of Fail \<Rightarrow> False | d \<Rightarrow> re_match d cs))"

text \<open>\<open>pattern.search(s)\<close>: \<open>None\<close>, or the start index of the leftmost match.\<close>

fun re_search :: "rx \<Rightarrow> string \<Rightarrow> nat option" where
  "re_search r [] = (if re_match r [] then Some 0 else None)"
| "re_search r (c # cs) =
     (if re_match r (c # cs) then Some 0 else map_option Suc (re_search r cs))"

subsection \<open>The patterns of the parser\<close>

text \<open>
  The parser imports \<open>SPACE_REGEX\<close>, \<open>DATE_YYYY_MM_DD_REGEX\<close> and
  \<open>TIME_HR_MIN_SEC_MSEC_REGEX\<close> from \<open>mi.dataset.parser.common_regexes\<close>, a module of the
  repository that is not among the sources at hand. The specification gives the timestamp
  as \<open>YYYY/MM/DD HH:MM:SS.mmm\<close>; the parser reads year, month, day, hour, minute, second
  and millisecond as groups 2 to 8 of the match, group 1 being the whole match.
\<close>

text \<open>Modelled from the spec: the constant \<open>SPACE_REGEX\<close> of \<open>common_regexes\<close>, one space.\<close>

definition SPACE_REGEX :: rx where
  "SPACE_REGEX = Lit '' ''"

text \<open>Modelled from the spec: the constant \<open>DATE_YYYY_MM_DD_REGEX\<close> of \<open>common_regexes\<close>,
  the date \<open>YYYY/MM/DD\<close> with a group for each of its three numbers.\<close>

definition DATE_YYYY_MM_DD_REGEX :: rx where
  "DATE_YYYY_MM_DD_REGEX =
     Seq (Rep 4 (Cls digit_chars)) (Seq (Lit ''/'')
    (Seq (Rep 2 (Cls digit_chars)) (Seq (Lit ''/'') (Rep 2 (Cls digit_chars)))))"

text \<open>Modelled from the spec: the constant \<open>TIME_HR_MIN_SEC_MSEC_REGEX\<close> of
  \<open>common_regexes\<close>, the time \<open>HH:MM:SS.mmm\<close> with a group for each of its four numbers.\<close>

definition TIME_HR_MIN_SEC_MSEC_REGEX :: rx where
  "TIME_HR_MIN_SEC_MSEC_REGEX =
     Seq (Rep 2 (Cls digit_chars)) (Seq (Lit '':'')
    (Seq (Rep 2 (Cls digit_chars)) (Seq (Lit '':'')
    (Seq (Rep 2 (Cls digit_chars)) (Seq (Lit ''.'') (Rep 3 (Cls digit_chars)))))))"

text \<open>\<open>DATE_TIME_REGEX\<close>: date, space and time; its outer parentheses are group 1.\<close>

definition DATE_TIME_REGEX :: rx where
  "DATE_TIME_REGEX = Seq DATE_YYYY_MM_DD_REGEX (Seq SPACE_REGEX TIME_HR_MIN_SEC_MSEC_REGEX)"

text \<open>\<open>r'.+ No_FC_Data'\<close>\<close>

definition NON_DATA_REGEX :: rx where
  "NON_DATA_REGEX = Seq (Plus Dot) (Lit '' No_FC_Data'')"

text \<open>\<open>r'( [+-]?[0-9]+,)'\<close>\<close>

definition START_DATA_REGEX :: rx where
  "START_DATA_REGEX =
     Seq (Lit '' '') (Seq (Opt (Cls ''+-'')) (Seq (Plus (Cls digit_chars)) (Lit '','')))"

text \<open>\<open>r'(: ?[+-]?[0-9]+ [0-9A-Fa-f]+)'\<close>\<close>

definition END_DATA_REGEX :: rx where
  "END_DATA_REGEX =
     Seq (Lit '':'') (Seq (Opt (Lit '' '')) (Seq (Opt (Cls ''+-''))
    (Seq (Plus (Cls digit_chars)) (Seq (Lit '' '') (Plus (Cls hex_chars))))))"

section \<open>Integer conversion and errors\<close>

datatype py_error = ValueError | IndexError

definition py_isspace :: "char \<Rightarrow> bool" where
  "py_isspace c = (c \<in> set [CHR '' '', CHR 0x09, CHR 0x0A, CHR 0x0B, CHR 0x0C, CHR 0x0D])"

text \<open>The value of a string of decimal digits.\<close>

definition digits_val :: "string \<Rightarrow> int" where
  "digits_val ds = foldl (\<lambda>a c. 10 * a + (ord c - 48)) 0 ds"

text \<open>
  Python 2's \<open>int(s)\<close> on a byte string: white space around the literal is skipped (also
  between the sign and the digits), the sign is optional, at least one decimal digit is
  required and nothing else may follow. \<open>None\<close> stands for the \<open>ValueError\<close> it raises.
\<close>

definition py_int :: "string \<Rightarrow> int option" where
  "py_int s =
     (let t = dropWhile py_isspace s;
          neg = (case t of [] \<Rightarrow> False | c # _ \<Rightarrow> c = CHR ''-'');
          u = (case t of [] \<Rightarrow> [] | c # r \<Rightarrow> if c = CHR ''-'' \<or> c = CHR ''+'' then r else t);
          v = dropWhile py_isspace u;
          ds = takeWhile (\<lambda>c. c \<in> set digit_chars) v;
          rest = dropWhile (\<lambda>c. c \<in> set digit_chars) v
      in if ds \<noteq> [] \<and> dropWhile py_isspace rest = []
         then Some (if neg then - digits_val ds else digits_val ds)
         else None)"

section \<open>Timestamps\<close>

text \<open>
  \<open>get_timestamp\<close> calls \<open>calendar.timegm\<close> and \<open>ntplib.system_to_ntp_time\<close> and divides in
  floating point. These library operations are parameters of the model: \<open>timegm\<close> on the
  six calendar and clock components (the three zeros that the parser appends are not
  read; it raises \<open>ValueError\<close> for a year or month outside the calendar), the float
  addition of \<open>int(ms)/1000.0\<close> to the seconds, and the change of epoch together with the
  final \<open>float(...)\<close>. \<open>'f\<close> is the type of floats.
\<close>

record 'f timelib =
  timegm :: "int \<times> int \<times> int \<times> int \<times> int \<times> int \<Rightarrow> py_error + int"
  plus_millis :: "int \<Rightarrow> int \<Rightarrow> 'f"
  system_to_ntp_time :: "'f \<Rightarrow> 'f"

type_synonym dcl_tuple = "int \<times> int \<times> int \<times> int \<times> int \<times> int \<times> int"

definition get_timestamp :: "'f timelib \<Rightarrow> dcl_tuple \<Rightarrow> py_error + 'f" where
  "get_timestamp lib my_tuple =
     (case my_tuple of (year, month, day, hour, minute, second, ms) \<Rightarrow>
        (case timegm lib (year, month, day, hour, minute, second) of
           Inl e \<Rightarrow> Inl e
         | Inr seconds \<Rightarrow>
             (let elapsed_seconds = plus_millis lib seconds ms
              in Inr (system_to_ntp_time lib elapsed_seconds))))"

subsection \<open>An exact instance of the time library\<close>

text \<open>
  To run the model on concrete lines, the library is instantiated with exact integer
  arithmetic in milliseconds: \<open>timegm\<close> as Python 2.7 computes it from the proleptic
  Gregorian ordinal of the first day of the month, and the NTP epoch 2208988800 seconds
  before the Unix epoch.
\<close>

definition days_before_year :: "int \<Rightarrow> int" where
  "days_before_year y = (y - 1) * 365 + (y - 1) div 4 - (y - 1) div 100 + (y - 1) div 400"

definition is_leap :: "int \<Rightarrow> bool" where
  "is_leap y = (y mod 4 = 0 \<and> (y mod 100 \<noteq> 0 \<or> y mod 400 = 0))"

definition days_before_month :: "int \<Rightarrow> int \<Rightarrow> int" where
  "days_before_month y m =
     sum_list (take (nat (m - 1)) [31, if is_leap y then 29 else 28, 31, 30, 31, 30, 31, 31, 30, 31, 30, 31])"

definition exact_timegm :: "int \<times> int \<times> int \<times> int \<times> int \<times> int \<Rightarrow> py_error + int" where
  "exact_timegm t =
     (case t of (year, month, day, hour, minute, second) \<Rightarrow>
        if year < 1 \<or> 9999 < year \<or> month < 1 \<or> 12 < month then Inl ValueError
        else
          (let days = days_before_year year + days_before_month year month + 1 - 719163 + day - 1;
               hours = days * 24 + hour;
               minutes = hours * 60 + minute;
               seconds = minutes * 60 + second
           in Inr seconds))"

definition exact_timelib :: "int timelib" where
  "exact_timelib =
     \<lparr> timegm = exact_timegm,
       plus_millis = (\<lambda>seconds ms. seconds * 1000 + ms),
       system_to_ntp_time = (\<lambda>t. t + 2208988800 * 1000) \<rparr>"

section \<open>Particles\<close>

datatype particle_class = FuelCellEngDclDataParticleRecovered | FuelCellEngDclDataParticleTelemetered

text \<open>The dictionary built by \<open>generate_data_dict\<close>, as a list of key and value.\<close>

type_synonym data_dict = "(string \<times> string) list"

definition particle_keys :: "string list" where
  "particle_keys =
     [''datalog_manager_version'', ''system_software_version'', ''total_run_time'',
      ''fuel_cell_voltage'', ''fuel_cell_current'', ''reformer_temperature'',
      ''fuel_cell_h2_pressure'', ''fuel_cell_temperature'', ''reformer_fuel_pressure'',
      ''fuel_pump_pwm_drive_percent'', ''air_pump_pwm_drive_percent'',
      ''coolant_pump_pwm_drive_percent'', ''air_pump_tach_count'', ''fuel_cell_state'',
      ''fuel_remaining'', ''power_to_battery1'', ''battery1_converter_temperature'',
      ''power_to_battery2'', ''battery2_converter_temperature'', ''balance_of_plant_power'',
      ''balance_of_plant_converter_temperature'', ''power_board_temperature'',
      ''control_board_temperature'', ''power_manager_status'', ''power_manager_error_mask'',
      ''reformer_error_mask'', ''fuel_cell_error_mask'']"

text \<open>
  \<open>generate_data_dict\<close> reads \<open>data_list[0]\<close> to \<open>data_list[26]\<close>, in the order of the
  keys above; a shorter list raises \<open>IndexError\<close>.
\<close>

definition generate_data_dict :: "string \<Rightarrow> string list \<Rightarrow> py_error + data_dict" where
  "generate_data_dict datetime data_list =
     (if length data_list < 27 then Inl IndexError
      else Inr ((''dcl_controller_timestamp'', datetime) #
                map (\<lambda>i. (particle_keys ! i, data_list ! i)) [0..<27]))"

text \<open>
  Modelled from the spec: \<open>_extract_sample\<close> of the base class \<open>SimpleParser\<close>
  (\<open>mi.dataset.dataset_parser\<close>), which this repository excerpt does not contain. The spec
  describes its result as a record carrying the type tag of the configured class, the
  emission timestamp and the mapping of the field names to their values.
\<close>

record 'f particle =
  data_particle_type :: particle_class
  raw_data :: data_dict
  internal_timestamp :: 'f

definition extract_sample :: "particle_class \<Rightarrow> data_dict \<Rightarrow> 'f \<Rightarrow> 'f particle" where
  "extract_sample cls d ts =
     \<lparr> data_particle_type = cls, raw_data = d, internal_timestamp = ts \<rparr>"

section \<open>The parser\<close>

text \<open>
  \<open>log_warning\<close> hands the exception callback a \<open>RecoverableSampleException\<close> built from
  two arguments: the text \<open>msg_text + ' %d - No particle generated'\<close> and the line number.
\<close>

datatype exc = RecoverableSampleException string nat

text \<open>What the body of the loop of \<open>parse_file\<close> does with one line: one call of
  \<open>log_warning\<close>, one particle appended to the record buffer, or an exception that leaves
  \<open>parse_file\<close>.\<close>

datatype 'f outcome = Warning string nat | Emitted "'f particle" | Raised py_error

text \<open>
  The data block rebuilt from the pieces of \<open>data_string.split(' ')\<close>: the first piece when
  there are two, else the first piece followed by the pieces at positions
  \<open>1 .. len(data_part) - 2\<close>.
\<close>

definition rebuild_data :: "string list \<Rightarrow> string" where
  "rebuild_data data_part =
     (if length data_part = 2 then data_part ! 0
      else foldl (\<lambda>the_data x. the_data @ data_part ! x) (data_part ! 0)
             [1..<length data_part - 1])"

text \<open>
  The first part of the loop body, from the search for the no-data marker to the rebuilt
  data block: the text of the warning when a gate fails, else the timestamp text
  (\<open>found_dtg.group(1)\<close>, the 23 characters of the match) and \<open>the_data\<close>.
\<close>

definition frame_row :: "string \<Rightarrow> string + (string \<times> string)" where
  "frame_row fuelcell_input_row =
     (if re_search NON_DATA_REGEX fuelcell_input_row = None then
        (case re_search DATE_TIME_REGEX fuelcell_input_row of
           Some i \<Rightarrow>
             (let dtg = take 23 (drop i fuelcell_input_row) in
              (case re_search START_DATA_REGEX fuelcell_input_row of
                 Some start \<Rightarrow>
                   (let data_string = drop (start + 1) fuelcell_input_row in
                    if re_search END_DATA_REGEX data_string \<noteq> None then
                      (let data_part = split_on CHR '' '' data_string
                       in Inr (dtg, rebuild_data data_part))
                    else Inl ''No terminator found on line'')
               | None \<Rightarrow> Inl ''No data found on line''))
         | None \<Rightarrow> Inl ''Bad/Missing Timestamp on line'')
      else Inl ''No fuel cell data on line'')"

text \<open>Groups 2 to 8 of the timestamp match, cut out of its text at their fixed places.\<close>

definition dtg_groups :: "string \<Rightarrow> string list" where
  "dtg_groups dtg =
     [take 4 dtg, take 2 (drop 5 dtg), take 2 (drop 8 dtg), take 2 (drop 11 dtg),
      take 2 (drop 14 dtg), take 2 (drop 17 dtg), take 3 (drop 20 dtg)]"

definition dtg_timestamp :: "'f timelib \<Rightarrow> string \<Rightarrow> py_error + 'f" where
  "dtg_timestamp lib dtg =
     (case map py_int (dtg_groups dtg) of
        [Some year, Some month, Some day, Some hour, Some minute, Some second, Some ms] \<Rightarrow>
          get_timestamp lib (year, month, day, hour, minute, second, ms)
      | _ \<Rightarrow> Inl ValueError)"

text \<open>The second part of the loop body, from \<open>the_data.split(':')\<close> on.\<close>

definition validate_data ::
  "'f timelib \<Rightarrow> particle_class \<Rightarrow> nat \<Rightarrow> string \<Rightarrow> string \<Rightarrow> 'f outcome" where
  "validate_data lib cls line_count dtg the_data =
     (case split_on CHR '':'' the_data of
        actual_data # checksum_text # _ \<Rightarrow>
          (case py_int checksum_text of
             None \<Rightarrow> Raised ValueError
           | Some read_checksum \<Rightarrow>
               if good_checksum actual_data read_checksum then
                 (let the_fields = split_on CHR '','' actual_data in
                  if good_field the_fields then
                    (case dtg_timestamp lib dtg of
                       Inl e \<Rightarrow> Raised e
                     | Inr timestamp \<Rightarrow>
                         (case generate_data_dict dtg the_fields of
                            Inl e \<Rightarrow> Raised e
                          | Inr fuelcell_data_dict \<Rightarrow>
                              Emitted (extract_sample cls fuelcell_data_dict timestamp)))
                  else Warning ''Improper format line'' line_count)
               else Warning ''Bad checksum line'' line_count)
      | _ \<Rightarrow> Raised IndexError)"

definition process_row :: "'f timelib \<Rightarrow> particle_class \<Rightarrow> nat \<Rightarrow> string \<Rightarrow> 'f outcome" where
  "process_row lib cls line_count fuelcell_input_row =
     (case frame_row fuelcell_input_row of
        Inl msg_text \<Rightarrow> Warning msg_text line_count
      | Inr (dtg, the_data) \<Rightarrow> validate_data lib cls line_count dtg the_data)"

record 'f parser_state =
  line_count :: nat
  record_buffer :: "'f particle list"
  exception_callback :: "exc list"

definition log_warning :: "'f parser_state \<Rightarrow> string \<Rightarrow> nat \<Rightarrow> 'f parser_state" where
  "log_warning st msg_text which_line =
     st\<lparr>exception_callback := exception_callback st @
          [RecoverableSampleException (msg_text @ '' %d - No particle generated'') which_line]\<rparr>"

text \<open>
  The loop of \<open>parse_file\<close> over the lines that \<open>readline\<close> returns. It ends at the end of
  the stream or at an empty line (\<open>readline\<close> returns the empty string at the end of the
  file), or when the body raises: the result is the exception, if any, and the state of
  the parser at that moment.
\<close>

fun parse_loop ::
  "'f timelib \<Rightarrow> particle_class \<Rightarrow> 'f parser_state \<Rightarrow> string list \<Rightarrow>
   py_error option \<times> 'f parser_state" where
  "parse_loop lib cls st [] = (None, st)"
| "parse_loop lib cls st (fuelcell_input_row # rest) =
     (if fuelcell_input_row = [] then (None, st)
      else
        (let st1 = st\<lparr>line_count := line_count st + 1\<rparr> in
         (case process_row lib cls (line_count st1) fuelcell_input_row of
            Warning msg_text which_line \<Rightarrow>
              parse_loop lib cls (log_warning st1 msg_text which_line) rest
          | Emitted particle \<Rightarrow>
              parse_loop lib cls (st1\<lparr>record_buffer := record_buffer st1 @ [particle]\<rparr>) rest
          | Raised e \<Rightarrow> (Some e, st1))))"

definition parse_file ::
  "'f timelib \<Rightarrow> particle_class \<Rightarrow> string list \<Rightarrow> py_error option \<times> 'f parser_state" where
  "parse_file lib cls stream =
     parse_loop lib cls \<lparr>line_count = 0, record_buffer = [], exception_callback = []\<rparr> stream"

section \<open>Notions of the specification\<close>

text \<open>A token with at most one leading \<open>-\<close> removed.\<close>

definition strip_minus :: "string \<Rightarrow> string" where
  "strip_minus t = (case t of [] \<Rightarrow> [] | c # r \<Rightarrow> if c = CHR ''-'' then r else t)"

text \<open>
  The specification's integer token: not empty and, after stripping at most one leading
  \<open>-\<close>, not empty and made of decimal digits only.
\<close>

definition integer_token :: "string \<Rightarrow> bool" where
  "integer_token t =
     (t \<noteq> [] \<and> strip_minus t \<noteq> [] \<and> (\<forall>c \<in> set (strip_minus t). c \<in> set ''0123456789''))"

text \<open>
  The end-of-payload pattern as a set of strings: a colon, at most one space, an integer
  with an optional sign, a space and a token of hexadecimal digits.
\<close>

definition end_anchor :: "string \<Rightarrow> bool" where
  "end_anchor m =
     (\<exists>sp sg ds hs. m = '':'' @ sp @ sg @ ds @ '' '' @ hs
        \<and> sp \<in> {[], '' ''} \<and> sg \<in> {[], ''+'', ''-''}
        \<and> ds \<noteq> [] \<and> set ds \<subseteq> set ''0123456789''
        \<and> hs \<noteq> [] \<and> set hs \<subseteq> set ''0123456789ABCDEFabcdef'')"

text \<open>
  The particles of a list of lines in the order of the lines, the first line having the
  number \<open>k + 1\<close>: a line contributes its particle when its outcome is a particle, and
  nothing otherwise.
\<close>

fun emitted_particles ::
  "'f timelib \<Rightarrow> particle_class \<Rightarrow> nat \<Rightarrow> string list \<Rightarrow> 'f particle list" where
  "emitted_particles lib cls k [] = []"
| "emitted_particles lib cls k (row # rows) =
     (case process_row lib cls (Suc k) row of Emitted p \<Rightarrow> [p] | _ \<Rightarrow> [])
     @ emitted_particles lib cls (Suc k) rows"

section \<open>Field validation\<close>

lemma drop_start_char: "t \<noteq> [] \<Longrightarrow> drop (if startswith_minus t then 1 else 0) t = strip_minus t"
  by (cases t) (simp_all add: startswith_minus_def strip_minus_def)

lemma good_field_loop_iff: "good_field_loop xs \<longleftrightarrow> (\<forall>t \<in> set xs. integer_token t)"
proof (induction xs)
  case Nil
  show ?case by simp
next
  case (Cons t ts)
  show ?case
  proof (cases "t = []")
    case True
    then show ?thesis by (simp add: integer_token_def)
  next
    case False
    from False have "drop (if startswith_minus t then 1 else 0) t = strip_minus t"
      by (rule drop_start_char)
    then have "str_isdigit (drop (if startswith_minus t then 1 else 0) t) \<longleftrightarrow> integer_token t"
      using False by (simp add: str_isdigit_def integer_token_def digit_chars_def list_all_iff del: One_nat_def)
    with False Cons.IH show ?thesis by (simp add: Let_def del: One_nat_def)
  qed
qed

lemma integer_token_examples: "integer_token ''-45''" "\<not> integer_token ''12a''"
  by (simp_all add: integer_token_def strip_minus_def)

text \<open>
  Claim C5. \<open>good_field\<close> accepts a list of tokens exactly when it has 27 tokens and every
  token is an integer token (not empty and, after stripping at most one leading \<open>-\<close>, not
  empty and all decimal digits). So a list of 26 or 28 tokens is rejected, a list with the
  token \<open>12a\<close> is rejected, and replacing a token of an accepted list by \<open>-45\<close> leaves it
  accepted.
\<close>

theorem good_field_iff:
  "(good_field xs \<longleftrightarrow> length xs = 27 \<and> (\<forall>t \<in> set xs. integer_token t))
   \<and> (length xs = 26 \<or> length xs = 28 \<longrightarrow> \<not> good_field xs)
   \<and> (''12a'' \<in> set xs \<longrightarrow> \<not> good_field xs)
   \<and> (good_field xs \<and> i < 27 \<longrightarrow> good_field (xs[i := ''-45'']))"
proof -
  have main: "\<And>ys. good_field ys \<longleftrightarrow> length ys = 27 \<and> (\<forall>t \<in> set ys. integer_token t)"
    by (simp add: good_field_def good_field_loop_iff)
  have a: "length xs = 26 \<or> length xs = 28 \<longrightarrow> \<not> good_field xs"
    by (auto simp: main)
  have b: "''12a'' \<in> set xs \<longrightarrow> \<not> good_field xs"
    using integer_token_examples(2) by (auto simp: main)
  have c: "good_field xs \<and> i < 27 \<longrightarrow> good_field (xs[i := ''-45''])"
    using integer_token_examples(1) by (auto simp: main dest!: subsetD[OF set_update_subset_insert])
  from main a b c show ?thesis by blast
qed

theorem good_field_iff_witness:
  "good_field (replicate 27 ''-45'') \<and> \<not> good_field (replicate 26 ''7'') \<and> \<not> good_field (replicate 28 ''7'')
   \<and> \<not> good_field ((replicate 26 ''7'') @ [''12a'']) \<and> good_field ((replicate 27 ''7'')[3 := ''-45''])"
proof -
  have t: "\<forall>t \<in> set (replicate 27 ''-45''). integer_token t" 
    by (simp add: integer_token_def strip_minus_def)
  have t7: "\<forall>t \<in> set (replicate 27 ''7''). integer_token t" 
    by (simp add: integer_token_def strip_minus_def)
  have 1: "good_field (replicate 27 ''-45'')"
    using good_field_iff [of "replicate 27 ''-45''" 0] t by simp
  have g7: "good_field (replicate 27 ''7'')"
    using good_field_iff [of "replicate 27 ''7''" 0] t7 by simp
  have 2: "\<not> good_field (replicate 26 ''7'')"
    using good_field_iff [of "replicate 26 ''7''" 0] by simp
  have 3: "\<not> good_field (replicate 28 ''7'')"
    using good_field_iff [of "replicate 28 ''7''" 0] by simp
  have 4: "\<not> good_field ((replicate 26 ''7'') @ [''12a''])"
    using good_field_iff [of "(replicate 26 ''7'') @ [''12a'']" 0] integer_token_examples by simp
  have 5: "good_field ((replicate 27 ''7'')[3 := ''-45''])"
    using good_field_iff [of "replicate 27 ''7''" 3] g7 by simp
  from 1 2 3 4 5 show ?thesis by blast
qed

section \<open>Checksum\<close>

lemma checksum_loop_mod:
  "checksum_loop (a mod 32768) P = (a + sum_list (map ord P)) mod 32768"
proof (induction P arbitrary: a)
  case Nil
  show ?case by simp
next
  case (Cons c cs)
  have "checksum_loop (a mod 32768) (c # cs) = checksum_loop ((a mod 32768 + ord c) mod 32768) cs"
    by simp
  also have "\<dots> = (a mod 32768 + ord c + sum_list (map ord cs)) mod 32768"
    by (rule Cons.IH)
  also have "\<dots> = (a + sum_list (map ord (c # cs))) mod 32768"
    by (simp add: add.assoc mod_add_left_eq)
  finally show ?case .
qed

lemma checksum_loop_sum: "checksum_loop 0 P = sum_list (map ord P) mod 32768"
  using checksum_loop_mod [of 0 P] by simp

lemma frame_row_Nil: "frame_row [] = Inl ''Bad/Missing Timestamp on line''"
  by code_simp

lemma process_row_bad_checksum:
  "frame_row row = Inr (dtg, the_data) \<Longrightarrow> split_on CHR '':'' the_data = P # checksum_text # rest \<Longrightarrow>
   py_int checksum_text = Some R \<Longrightarrow> \<not> good_checksum P R \<Longrightarrow>
   process_row lib cls n row = Warning ''Bad checksum line'' n"
  by (simp add: process_row_def validate_data_def)

lemma parse_loop_Warning:
  "row \<noteq> [] \<Longrightarrow> process_row lib cls (line_count st + 1) row = Warning m k \<Longrightarrow>
   parse_loop lib cls st (row # others) =
   parse_loop lib cls (log_warning (st\<lparr>line_count := line_count st + 1\<rparr>) m k) others"
  by (simp add: Let_def)

lemma next_checksum_differs: "(s mod 32768 + 1) mod 32768 \<noteq> (s mod 32768 :: int)"
proof -
  define c where "c = s mod 32768"
  have r: "0 \<le> c" "c < 32768" by (simp_all add: c_def)
  have "(c + 1) mod 32768 \<noteq> c"
  proof (cases "c + 1 < 32768")
    case True
    with r have "(c + 1) mod 32768 = c + 1" by simp
    then show ?thesis by simp
  next
    case False
    with r have "c = 32767" by simp
    then show ?thesis by simp
  qed
  then show ?thesis by (simp add: c_def)
qed

text \<open>
  Claim C4. For every payload \<open>P\<close>, \<open>good_checksum\<close> accepts the sum of the byte values of
  \<open>P\<close> modulo 32768 and rejects that value plus one modulo 32768; a line whose framed
  payload is \<open>P\<close> and whose transmitted checksum is the latter makes the loop of
  \<open>parse_file\<close> call \<open>log_warning\<close> with \<open>Bad checksum line\<close> and go on with the next line,
  the record buffer unchanged.
\<close>

theorem checksum_accepts_sum_rejects_next:
  "good_checksum P (sum_list (map ord P) mod 32768)
   \<and> \<not> good_checksum P ((sum_list (map ord P) mod 32768 + 1) mod 32768)
   \<and> (frame_row row = Inr (dtg, the_data)
        \<and> split_on CHR '':'' the_data = P # checksum_text # rest
        \<and> py_int checksum_text = Some ((sum_list (map ord P) mod 32768 + 1) mod 32768)
      \<longrightarrow> process_row lib cls (line_count st + 1) row = Warning ''Bad checksum line'' (line_count st + 1)
          \<and> parse_loop lib cls st (row # others) =
            parse_loop lib cls
              (log_warning (st\<lparr>line_count := line_count st + 1\<rparr>) ''Bad checksum line'' (line_count st + 1))
              others)"
proof -
  let ?C = "sum_list (map ord P) mod 32768"
  have a: "good_checksum P ?C"
    by (simp add: good_checksum_def checksum_loop_sum)
  have b: "\<not> good_checksum P ((?C + 1) mod 32768)"
    using next_checksum_differs [of "sum_list (map ord P)"]
    by (simp add: good_checksum_def checksum_loop_sum)
  have c: "process_row lib cls (line_count st + 1) row = Warning ''Bad checksum line'' (line_count st + 1)
          \<and> parse_loop lib cls st (row # others) =
            parse_loop lib cls
              (log_warning (st\<lparr>line_count := line_count st + 1\<rparr>) ''Bad checksum line'' (line_count st + 1))
              others"
    if h: "frame_row row = Inr (dtg, the_data)"
          "split_on CHR '':'' the_data = P # checksum_text # rest"
          "py_int checksum_text = Some ((?C + 1) mod 32768)"
  proof -
    have w: "process_row lib cls (line_count st + 1) row = Warning ''Bad checksum line'' (line_count st + 1)"
      using h b by (rule process_row_bad_checksum)
    have "row \<noteq> []" using h(1) frame_row_Nil by auto
    then show ?thesis using w parse_loop_Warning by blast
  qed
  from a b c show ?thesis by blast
qed

theorem checksum_accepts_sum_rejects_next_witness:
  "good_checksum ''1,2'' 143 \<and> \<not> good_checksum ''1,2'' 144
   \<and> frame_row ''2015/03/10 14:22:05.500 1,2:144 ab'' = Inr (''2015/03/10 14:22:05.500'', ''1,2:144'')
   \<and> split_on CHR '':'' ''1,2:144'' = [''1,2'', ''144'']
   \<and> py_int ''144'' = Some 144
   \<and> process_row exact_timelib FuelCellEngDclDataParticleRecovered 1 ''2015/03/10 14:22:05.500 1,2:144 ab''
       = Warning ''Bad checksum line'' 1"
proof -
  have f: "frame_row ''2015/03/10 14:22:05.500 1,2:144 ab'' = Inr (''2015/03/10 14:22:05.500'', ''1,2:144'')"
    by code_simp
  have s: "split_on CHR '':'' ''1,2:144'' = [''1,2'', ''144'']"
    by simp
  have i: "py_int ''144'' = Some 144"
    by code_simp
  have c: "sum_list (map ord ''1,2'') = 143"
    by (simp add: ord_def)
  show ?thesis
    using checksum_accepts_sum_rejects_next
      [of "''1,2''" "''2015/03/10 14:22:05.500 1,2:144 ab''" "''2015/03/10 14:22:05.500''"
          "''1,2:144''" "''144''" "[]" exact_timelib FuelCellEngDclDataParticleRecovered
          "\<lparr>line_count = 0, record_buffer = [], exception_callback = []\<rparr>" "[]"]
      f s i c
    by simp
qed

section \<open>The matcher against the language of a pattern\<close>

lemma lang_alt: "lang (alt r s) = lang r \<union> lang s"
  by (induction r s rule: alt.induct) simp_all

lemma lang_seq: "lang (seq r s) = lang (Seq r s)"
  by (induction r s rule: seq.induct) simp_all

lemma nullable_iff: "nullable r \<longleftrightarrow> [] \<in> lang r"
  by (induction r) (auto intro: star.star_nil)

lemma star_Cons_split:
  assumes "x \<in> star A" and "x = c # w"
  shows "\<exists>u v. w = u @ v \<and> c # u \<in> A \<and> v \<in> star A"
  using assms
proof (induction arbitrary: w rule: star.induct)
  case star_nil
  then show ?case by simp
next
  case (star_app u v)
  show ?case
  proof (cases u)
    case Nil
    with star_app show ?thesis by simp
  next
    case (Cons d u')
    with star_app.prems have "d = c" and "w = u' @ v" by simp_all
    with Cons star_app.hyps show ?thesis by blast
  qed
qed

lemma lang_deriv: "lang (deriv c r) = {w. c # w \<in> lang r}"
proof (induction r)
  case (Seq r s)
  have "{w. c # w \<in> lang (Seq r s)} =
        {u @ v | u v. c # u \<in> lang r \<and> v \<in> lang s} \<union> (if [] \<in> lang r then {w. c # w \<in> lang s} else {})"
    by (auto simp: Cons_eq_append_conv) 
  with Seq show ?case
    by (auto simp: lang_alt lang_seq nullable_iff)
next
  case (Star r)
  have "{w. c # w \<in> star (lang r)} = {u @ v | u v. c # u \<in> lang r \<and> v \<in> star (lang r)}"
  proof (intro set_eqI iffI)
    fix w assume "w \<in> {w. c # w \<in> star (lang r)}"
    then show "w \<in> {u @ v | u v. c # u \<in> lang r \<and> v \<in> star (lang r)}"
      using star_Cons_split [of "c # w" "lang r" c w] by auto
  next
    fix w assume "w \<in> {u @ v | u v. c # u \<in> lang r \<and> v \<in> star (lang r)}"
    then obtain u v where "w = u @ v" "c # u \<in> lang r" "v \<in> star (lang r)" by auto
    then have "(c # u) @ v \<in> star (lang r)" by (intro star.star_app)
    with \<open>w = u @ v\<close> show "w \<in> {w. c # w \<in> star (lang r)}" by simp
  qed
  with Star show ?case by (simp add: lang_seq)
qed (auto simp: lang_alt)

lemma re_match_Fail: "\<not> re_match Fail s"
  by (induction s) simp_all

lemma re_match_Cons: "re_match r (c # cs) \<longleftrightarrow> nullable r \<or> re_match (deriv c r) cs"
  by (cases "deriv c r") (simp_all add: re_match_Fail)

lemma re_match_iff: "re_match r s \<longleftrightarrow> (\<exists>p q. s = p @ q \<and> p \<in> lang r)"
proof (induction s arbitrary: r)
  case Nil
  show ?case by (simp add: nullable_iff)
next
  case (Cons c cs)
  have "(\<exists>p q. c # cs = p @ q \<and> p \<in> lang r) \<longleftrightarrow>
        [] \<in> lang r \<or> (\<exists>p q. cs = p @ q \<and> c # p \<in> lang r)"
    by (auto simp: Cons_eq_append_conv)
  then show ?case
    by (simp only: re_match_Cons Cons.IH lang_deriv nullable_iff mem_Collect_eq)
qed

lemma all_le_Suc_split: "(\<forall>k \<le> Suc n. Q k) \<longleftrightarrow> Q 0 \<and> (\<forall>k \<le> n. Q (Suc k))"
proof
  assume "\<forall>k \<le> Suc n. Q k"
  then show "Q 0 \<and> (\<forall>k \<le> n. Q (Suc k))" by simp
next
  assume h: "Q 0 \<and> (\<forall>k \<le> n. Q (Suc k))"
  show "\<forall>k \<le> Suc n. Q k"
  proof (intro allI impI)
    fix k assume "k \<le> Suc n"
    with h show "Q k" by (cases k) simp_all
  qed
qed

lemma re_search_None_iff: "re_search r s = None \<longleftrightarrow> (\<forall>k \<le> length s. \<not> re_match r (drop k s))"
proof (induction s)
  case Nil
  show ?case by simp
next
  case (Cons c cs)
  have "(\<forall>k \<le> length (c # cs). \<not> re_match r (drop k (c # cs))) \<longleftrightarrow>
        \<not> re_match r (c # cs) \<and> (\<forall>k \<le> length cs. \<not> re_match r (drop k cs))"
    using all_le_Suc_split [of "length cs" "\<lambda>k. \<not> re_match r (drop k (c # cs))"]
    by (simp del: re_match.simps)
  with Cons show ?case by (simp del: re_match.simps)
qed

lemma re_search_Some:
  "re_search r s = Some i \<Longrightarrow> i \<le> length s \<and> re_match r (drop i s) \<and> (\<forall>k < i. \<not> re_match r (drop k s))"
proof (induction s arbitrary: i)
  case Nil
  then show ?case by (simp split: if_splits)
next
  case (Cons c cs)
  show ?case
  proof (cases "re_match r (c # cs)")
    case True
    with Cons.prems show ?thesis by (simp del: re_match.simps)
  next
    case False
    with Cons.prems obtain j where j: "re_search r cs = Some j" "i = Suc j"
      by (auto simp del: re_match.simps)
    from Cons.IH [OF j(1)] False j(2) show ?thesis
      by (auto simp: less_Suc_eq_0_disj simp del: re_match.simps)
  qed
qed

text \<open>A search finds a match exactly when the pattern occurs somewhere in the string.\<close>

lemma re_search_found_iff:
  "re_search r s \<noteq> None \<longleftrightarrow> (\<exists>u m v. s = u @ m @ v \<and> m \<in> lang r)"
proof
  assume "re_search r s \<noteq> None"
  then obtain k where "k \<le> length s" "re_match r (drop k s)"
    by (auto simp: re_search_None_iff)
  then obtain m v where "drop k s = m @ v" "m \<in> lang r"
    by (auto simp: re_match_iff)
  then have "s = take k s @ m @ v" by (metis append_take_drop_id)
  with \<open>m \<in> lang r\<close> show "\<exists>u m v. s = u @ m @ v \<and> m \<in> lang r" by blast
next
  assume "\<exists>u m v. s = u @ m @ v \<and> m \<in> lang r"
  then obtain u m v where s: "s = u @ m @ v" and m: "m \<in> lang r" by blast
  then have "re_match r (drop (length u) s)" by (auto simp: re_match_iff)
  moreover have "length u \<le> length s" using s by simp
  ultimately show "re_search r s \<noteq> None" by (auto simp: re_search_None_iff)
qed



lemma lang_Lit: "lang (Lit s) = {s}"
  by (induction s) auto

lemma lang_Opt: "lang (Opt r) = insert [] (lang r)"
  by (auto simp: Opt_def)

lemma star_Cls: "star (lang (Cls cs)) = {w. set w \<subseteq> set cs}"
proof (intro set_eqI iffI)
  fix w assume "w \<in> star (lang (Cls cs))"
  then show "w \<in> {w. set w \<subseteq> set cs}"
    by (induction rule: star.induct) auto
next
  fix w assume "w \<in> {w. set w \<subseteq> set cs}"
  then have "set w \<subseteq> set cs" by simp
  then show "w \<in> star (lang (Cls cs))"
  proof (induction w)
    case Nil
    show ?case by (rule star.star_nil)
  next
    case (Cons c w)
    then have "[c] \<in> lang (Cls cs)" and "w \<in> star (lang (Cls cs))" by simp_all
    then have "[c] @ w \<in> star (lang (Cls cs))" by (rule star.star_app)
    then show ?case by simp
  qed
qed

lemma lang_Plus_Cls: "lang (Plus (Cls cs)) = {w. w \<noteq> [] \<and> set w \<subseteq> set cs}"
proof (intro set_eqI)
  fix w
  have "w \<in> lang (Plus (Cls cs)) \<longleftrightarrow>
        (\<exists>u v. w = u @ v \<and> u \<in> lang (Cls cs) \<and> v \<in> star (lang (Cls cs)))"
    by (simp add: Plus_def)
  also have "\<dots> \<longleftrightarrow> (\<exists>u v. w = u @ v \<and> u \<in> lang (Cls cs) \<and> set v \<subseteq> set cs)"
    by (simp only: star_Cls mem_Collect_eq)
  also have "\<dots> \<longleftrightarrow> (\<exists>c v. w = c # v \<and> c \<in> set cs \<and> set v \<subseteq> set cs)"
  proof
    assume "\<exists>u v. w = u @ v \<and> u \<in> lang (Cls cs) \<and> set v \<subseteq> set cs"
    then show "\<exists>c v. w = c # v \<and> c \<in> set cs \<and> set v \<subseteq> set cs" by auto
  next
    assume "\<exists>c v. w = c # v \<and> c \<in> set cs \<and> set v \<subseteq> set cs"
    then obtain c v where "w = [c] @ v" "[c] \<in> lang (Cls cs)" "set v \<subseteq> set cs" by auto
    then show "\<exists>u v. w = u @ v \<and> u \<in> lang (Cls cs) \<and> set v \<subseteq> set cs" by blast
  qed
  also have "\<dots> \<longleftrightarrow> w \<noteq> [] \<and> set w \<subseteq> set cs"
    by (cases w) auto
  finally show "w \<in> lang (Plus (Cls cs)) \<longleftrightarrow> w \<in> {w. w \<noteq> [] \<and> set w \<subseteq> set cs}"
    by simp
qed

lemma lang_Seq_iff: "w \<in> lang (Seq r s) \<longleftrightarrow> (\<exists>u v. w = u @ v \<and> u \<in> lang r \<and> v \<in> lang s)"
  by auto

lemma lang_sign: "lang (Opt (Cls ''+-'')) = {[], ''+'', ''-''}"
  by (auto simp: lang_Opt)

lemma lang_opt_space: "lang (Opt (Lit '' '')) = {[], '' ''}"
  by (auto simp: lang_Opt)

lemma lang_END_DATA_REGEX: "m \<in> lang END_DATA_REGEX \<longleftrightarrow> end_anchor m"
  unfolding END_DATA_REGEX_def end_anchor_def lang_Seq_iff lang_Lit lang_Plus_Cls lang_sign lang_opt_space
    digit_chars_def hex_chars_def
  by (simp del: set_simps) blast


section \<open>Rebuilding the data block\<close>

lemma foldl_append_nth:
  "foldl (\<lambda>the_data x. the_data @ data_part ! x) acc [a..<b] = acc @ concat (map ((!) data_part) [a..<b])"
proof (induction b)
  case 0
  show ?case by simp
next
  case (Suc b)
  show ?case
  proof (cases "a \<le> b")
    case True
    with Suc show ?thesis by simp
  next
    case False
    then show ?thesis by simp
  qed
qed

lemma rebuild_data_concat:
  assumes "2 < length data_part"
  shows "rebuild_data data_part = concat (butlast data_part)"
proof -
  let ?n = "length data_part - 1"
  have "rebuild_data data_part = data_part ! 0 @ concat (map ((!) data_part) [1..<?n])"
    using assms by (simp add: rebuild_data_def foldl_append_nth)
  also have "\<dots> = concat (map ((!) data_part) (0 # [1..<?n]))"
    by simp
  also have "0 # [1..<?n] = [0..<?n]"
    using assms by (simp add: upt_conv_Cons)
  also have "map ((!) data_part) [0..<?n] = take ?n data_part"
    by (simp add: list_eq_iff_nth_eq)
  also have "\<dots> = butlast data_part"
    by (simp add: butlast_conv_take)
  finally show ?thesis .
qed

lemma frame_row_passed:
  assumes "re_search NON_DATA_REGEX row = None"
    and "re_search DATE_TIME_REGEX row = Some i"
    and "re_search START_DATA_REGEX row = Some start"
    and "re_search END_DATA_REGEX (drop (start + 1) row) \<noteq> None"
  shows "frame_row row = Inr (take 23 (drop i row), rebuild_data (split_on CHR '' '' (drop (start + 1) row)))"
  using assms by (simp add: frame_row_def Let_def del: One_nat_def)

text \<open>
  Claim C7. When the start and end anchors have been found and the data string splits on
  single spaces into more than two pieces, the rebuilt data block is the concatenation of
  all pieces but the last, with nothing between them, and the rest of the processing of
  the line (checksum splitting and validation) runs on that block.
\<close>

theorem rebuilt_block_drops_spaces:
  assumes "re_search NON_DATA_REGEX row = None"
    and "re_search DATE_TIME_REGEX row = Some i"
    and "re_search START_DATA_REGEX row = Some start"
    and "re_search END_DATA_REGEX (drop (start + 1) row) \<noteq> None"
    and "2 < length (split_on CHR '' '' (drop (start + 1) row))"
  shows "rebuild_data (split_on CHR '' '' (drop (start + 1) row))
           = concat (butlast (split_on CHR '' '' (drop (start + 1) row)))
       \<and> process_row lib cls n row
           = validate_data lib cls n (take 23 (drop i row))
               (concat (butlast (split_on CHR '' '' (drop (start + 1) row))))"
proof -
  have r: "rebuild_data (split_on CHR '' '' (drop (start + 1) row))
           = concat (butlast (split_on CHR '' '' (drop (start + 1) row)))"
    using assms(5) by (rule rebuild_data_concat)
  have "frame_row row = Inr (take 23 (drop i row), rebuild_data (split_on CHR '' '' (drop (start + 1) row)))"
    using assms(1-4) by (rule frame_row_passed)
  then have "process_row lib cls n row
           = validate_data lib cls n (take 23 (drop i row)) (rebuild_data (split_on CHR '' '' (drop (start + 1) row)))"
    by (simp add: process_row_def)
  with r show ?thesis by simp
qed

theorem rebuilt_block_drops_spaces_witness:
  "re_search NON_DATA_REGEX ''2015/03/10 14:22:05.500 1, 2:143 ab'' = None
   \<and> re_search DATE_TIME_REGEX ''2015/03/10 14:22:05.500 1, 2:143 ab'' = Some 0
   \<and> re_search START_DATA_REGEX ''2015/03/10 14:22:05.500 1, 2:143 ab'' = Some 23
   \<and> re_search END_DATA_REGEX ''1, 2:143 ab'' = Some 4
   \<and> split_on CHR '' '' ''1, 2:143 ab'' = [''1,'', ''2:143'', ''ab'']
   \<and> rebuild_data [''1,'', ''2:143'', ''ab''] = ''1,2:143''
   \<and> process_row exact_timelib FuelCellEngDclDataParticleRecovered 1
        ''2015/03/10 14:22:05.500 1, 2:143 ab''
       = validate_data exact_timelib FuelCellEngDclDataParticleRecovered 1
           ''2015/03/10 14:22:05.500'' ''1,2:143''"
proof -
  have a: "re_search NON_DATA_REGEX ''2015/03/10 14:22:05.500 1, 2:143 ab'' = None"
    by code_simp
  have b: "re_search DATE_TIME_REGEX ''2015/03/10 14:22:05.500 1, 2:143 ab'' = Some 0"
    by code_simp
  have c: "re_search START_DATA_REGEX ''2015/03/10 14:22:05.500 1, 2:143 ab'' = Some 23"
    by code_simp
  have d: "re_search END_DATA_REGEX ''1, 2:143 ab'' = Some 4"
    by code_simp
  have e: "split_on CHR '' '' ''1, 2:143 ab'' = [''1,'', ''2:143'', ''ab'']"
    by simp
  show ?thesis
    using rebuilt_block_drops_spaces
      [of "''2015/03/10 14:22:05.500 1, 2:143 ab''" 0 23 exact_timelib
          FuelCellEngDclDataParticleRecovered 1]
      a b c d e
    by simp
qed

section \<open>The end-of-payload terminator\<close>

lemma validate_data_not_frame_warning:
  "validate_data lib cls n dtg the_data \<noteq> Warning ''No terminator found on line'' k"
  by (simp add: validate_data_def Let_def split: list.splits option.splits sum.splits)

text \<open>
  Claim C8, as amended. For a line that has passed the no-data, timestamp and start-anchor
  gates, the terminator is recognised when the pattern (colon, at most one space,
  optionally signed integer, space, hexadecimal token) occurs anywhere in the data string,
  at the end of the line or not: the line gets the warning \<open>No terminator found on line\<close>
  exactly when the data string contains no occurrence of the pattern.
\<close>

theorem terminator_recognised_anywhere:
  assumes "re_search NON_DATA_REGEX row = None"
    and "re_search DATE_TIME_REGEX row = Some i"
    and "re_search START_DATA_REGEX row = Some start"
  shows "process_row lib cls n row = Warning ''No terminator found on line'' n
         \<longleftrightarrow> \<not> (\<exists>u m v. drop (start + 1) row = u @ m @ v \<and> end_anchor m)"
proof (cases "re_search END_DATA_REGEX (drop (start + 1) row) = None")
  case True
  with assms have "frame_row row = Inl ''No terminator found on line''"
    by (simp add: frame_row_def Let_def del: One_nat_def)
  then have "process_row lib cls n row = Warning ''No terminator found on line'' n"
    by (simp add: process_row_def)
  moreover from True have "\<not> (\<exists>u m v. drop (start + 1) row = u @ m @ v \<and> end_anchor m)"
    using re_search_found_iff [of END_DATA_REGEX "drop (start + 1) row"]
    by (simp add: lang_END_DATA_REGEX)
  ultimately show ?thesis by simp
next
  case False
  with assms have "frame_row row =
      Inr (take 23 (drop i row), rebuild_data (split_on CHR '' '' (drop (start + 1) row)))"
    by (rule frame_row_passed)
  then have "process_row lib cls n row \<noteq> Warning ''No terminator found on line'' n"
    by (simp add: process_row_def validate_data_not_frame_warning)
  moreover from False have "\<exists>u m v. drop (start + 1) row = u @ m @ v \<and> end_anchor m"
    using re_search_found_iff [of END_DATA_REGEX "drop (start + 1) row"]
    by (simp add: lang_END_DATA_REGEX)
  ultimately show ?thesis by simp
qed

theorem terminator_recognised_anywhere_witness:
  "re_search NON_DATA_REGEX ''2015/03/10 14:22:05.500 1,2:143'' = None
   \<and> re_search DATE_TIME_REGEX ''2015/03/10 14:22:05.500 1,2:143'' = Some 0
   \<and> re_search START_DATA_REGEX ''2015/03/10 14:22:05.500 1,2:143'' = Some 23
   \<and> process_row exact_timelib FuelCellEngDclDataParticleRecovered 1 ''2015/03/10 14:22:05.500 1,2:143''
       = Warning ''No terminator found on line'' 1
   \<and> \<not> (\<exists>u m v. ''1,2:143'' = u @ m @ v \<and> end_anchor m)"
proof -
  have a: "re_search NON_DATA_REGEX ''2015/03/10 14:22:05.500 1,2:143'' = None"
    by code_simp
  have b: "re_search DATE_TIME_REGEX ''2015/03/10 14:22:05.500 1,2:143'' = Some 0"
    by code_simp
  have c: "re_search START_DATA_REGEX ''2015/03/10 14:22:05.500 1,2:143'' = Some 23"
    by code_simp
  have d: "process_row exact_timelib FuelCellEngDclDataParticleRecovered 1 ''2015/03/10 14:22:05.500 1,2:143''
       = Warning ''No terminator found on line'' 1"
    by code_simp
  show ?thesis
    using terminator_recognised_anywhere
      [of "''2015/03/10 14:22:05.500 1,2:143''" 0 23 exact_timelib
          FuelCellEngDclDataParticleRecovered 1]
      a b c d
    by simp
qed

text \<open>
  The claim as stated fails: in the line below the pattern \<open>:143 ab\<close> is followed by further
  text, yet the terminator is found and the line goes on to field validation.
\<close>

theorem terminator_not_at_line_end_counterexample:
  "''1,2:143 abXYZ'' = ''1,2'' @ '':143 ab'' @ ''XYZ''
   \<and> frame_row ''2015/03/10 14:22:05.500 1,2:143 abXYZ''
       = Inr (''2015/03/10 14:22:05.500'', ''1,2:143'')
   \<and> process_row exact_timelib FuelCellEngDclDataParticleRecovered 1
        ''2015/03/10 14:22:05.500 1,2:143 abXYZ'' = Warning ''Improper format line'' 1
   \<and> process_row exact_timelib FuelCellEngDclDataParticleRecovered 1
        ''2015/03/10 14:22:05.500 1,2:143 abXYZ'' \<noteq> Warning ''No terminator found on line'' 1"
  by code_simp

section \<open>Fields with a plus sign\<close>








section \<open>The record buffer\<close>

lemma process_row_Emitted:
  assumes "process_row lib cls n row = Emitted p"
  shows "\<exists>dtg the_data actual_data checksum_text rest read_checksum.
           frame_row row = Inr (dtg, the_data)
           \<and> split_on CHR '':'' the_data = actual_data # checksum_text # rest
           \<and> py_int checksum_text = Some read_checksum
           \<and> good_checksum actual_data read_checksum
           \<and> good_field (split_on CHR '','' actual_data)
           \<and> generate_data_dict dtg (split_on CHR '','' actual_data) = Inr (raw_data p)"
proof (cases "frame_row row")
  case (Inl msg)
  with assms show ?thesis by (simp add: process_row_def)
next
  case (Inr res)
  obtain dtg the_data where res: "res = (dtg, the_data)" by (cases res)
  with Inr assms have v: "validate_data lib cls n dtg the_data = Emitted p"
    by (simp add: process_row_def)
  then obtain actual_data checksum_text rest where
    sp: "split_on CHR '':'' the_data = actual_data # checksum_text # rest"
    by (auto simp: validate_data_def split: list.splits)
  with v obtain read_checksum where i: "py_int checksum_text = Some read_checksum"
    by (auto simp: validate_data_def split: option.splits)
  from v sp i have g: "good_checksum actual_data read_checksum"
    by (auto simp: validate_data_def split: if_splits)
  from v sp i g have f: "good_field (split_on CHR '','' actual_data)"
    by (auto simp: validate_data_def Let_def split: if_splits)
  from v sp i g f have "generate_data_dict dtg (split_on CHR '','' actual_data) = Inr (raw_data p)"
    by (auto simp: validate_data_def Let_def extract_sample_def split: sum.splits)
  with Inr res sp i g f show ?thesis by blast
qed

lemma emitted_particles_mem:
  "p \<in> set (emitted_particles lib cls k rows) \<Longrightarrow>
   \<exists>j < length rows. process_row lib cls (Suc (k + j)) (rows ! j) = Emitted p"
proof (induction rows arbitrary: k)
  case Nil
  then show ?case by simp
next
  case (Cons row rows)
  from Cons.prems consider
    (here) "process_row lib cls (Suc k) row = Emitted p"
    | (later) "p \<in> set (emitted_particles lib cls (Suc k) rows)"
    by (auto split: outcome.splits)
  then show ?case
  proof cases
    case here
    then have "process_row lib cls (Suc (k + 0)) ((row # rows) ! 0) = Emitted p" by simp
    then show ?thesis by blast
  next
    case later
    from Cons.IH [OF later] obtain j where
      "j < length rows" "process_row lib cls (Suc (Suc k + j)) (rows ! j) = Emitted p" by blast
    then have "Suc j < length (row # rows)"
      "process_row lib cls (Suc (k + Suc j)) ((row # rows) ! Suc j) = Emitted p" by simp_all
    then show ?thesis by blast
  qed
qed

lemma parse_loop_buffer:
  "parse_loop lib cls st rows = (err, st') \<Longrightarrow>
   \<exists>m \<le> length rows. line_count st' = line_count st + m
      \<and> record_buffer st' = record_buffer st @ emitted_particles lib cls (line_count st) (take m rows)"
proof (induction rows arbitrary: st)
  case Nil
  then show ?case by simp
next
  case (Cons row rows)
  show ?case
  proof (cases "row = []")
    case True
    with Cons.prems have "st' = st" by simp
    then have "0 \<le> length (row # rows) \<and> line_count st' = line_count st + 0
      \<and> record_buffer st' = record_buffer st @ emitted_particles lib cls (line_count st) (take 0 (row # rows))"
      by simp
    then show ?thesis by blast
  next
    case False
    let ?st1 = "st\<lparr>line_count := line_count st + 1\<rparr>"
    show ?thesis
    proof (cases "process_row lib cls (Suc (line_count st)) row")
      case (Warning msg k)
      with False Cons.prems have "parse_loop lib cls (log_warning ?st1 msg k) rows = (err, st')"
        by (simp add: Let_def)
      from Cons.IH [OF this] obtain m where m: "m \<le> length rows"
        "line_count st' = Suc (line_count st) + m"
        "record_buffer st' = record_buffer st @ emitted_particles lib cls (Suc (line_count st)) (take m rows)"
        by (auto simp: log_warning_def)
      with Warning have "Suc m \<le> length (row # rows) \<and> line_count st' = line_count st + Suc m
        \<and> record_buffer st' = record_buffer st @ emitted_particles lib cls (line_count st) (take (Suc m) (row # rows))"
        by simp
      then show ?thesis by blast
    next
      case (Emitted p)
      with False Cons.prems have
        "parse_loop lib cls (?st1\<lparr>record_buffer := record_buffer ?st1 @ [p]\<rparr>) rows = (err, st')"
        by (simp add: Let_def)
      from Cons.IH [OF this] obtain m where m: "m \<le> length rows"
        "line_count st' = Suc (line_count st) + m"
        "record_buffer st' = (record_buffer st @ [p]) @ emitted_particles lib cls (Suc (line_count st)) (take m rows)"
        by auto
      with Emitted have "Suc m \<le> length (row # rows) \<and> line_count st' = line_count st + Suc m
        \<and> record_buffer st' = record_buffer st @ emitted_particles lib cls (line_count st) (take (Suc m) (row # rows))"
        by simp
      then show ?thesis by blast
    next
      case (Raised e)
      with False Cons.prems have "st' = ?st1" by (simp add: Let_def)
      with Raised have "Suc 0 \<le> length (row # rows) \<and> line_count st' = line_count st + Suc 0
        \<and> record_buffer st' = record_buffer st @ emitted_particles lib cls (line_count st) (take (Suc 0) (row # rows))"
        by simp
      then show ?thesis by blast
    qed
  qed
qed

text \<open>
  Claim C1. Whatever the input stream and however \<open>parse_file\<close> ends, the record buffer is
  the list of the particles of the lines read so far, in the order of the lines, each line
  contributing at most once; and every particle in it comes from a line whose payload passed
  \<open>good_checksum\<close> and whose field vector, from which the particle's values are taken,
  passed \<open>good_field\<close>.
\<close>

theorem buffer_holds_validated_records_in_line_order:
  assumes "parse_file lib cls stream = (err, st)"
  shows "line_count st \<le> length stream
    \<and> record_buffer st = emitted_particles lib cls 0 (take (line_count st) stream)
    \<and> (\<forall>p \<in> set (record_buffer st).
          \<exists>k < line_count st. \<exists>dtg the_data actual_data checksum_text rest read_checksum.
            process_row lib cls (Suc k) (stream ! k) = Emitted p
            \<and> frame_row (stream ! k) = Inr (dtg, the_data)
            \<and> split_on CHR '':'' the_data = actual_data # checksum_text # rest
            \<and> py_int checksum_text = Some read_checksum
            \<and> good_checksum actual_data read_checksum
            \<and> good_field (split_on CHR '','' actual_data)
            \<and> generate_data_dict dtg (split_on CHR '','' actual_data) = Inr (raw_data p))"
proof -
  from assms obtain m where m: "m \<le> length stream" "line_count st = m"
    "record_buffer st = emitted_particles lib cls 0 (take m stream)"
    using parse_loop_buffer [of lib cls "\<lparr>line_count = 0, record_buffer = [], exception_callback = []\<rparr>" stream err st]
    by (auto simp: parse_file_def)
  have gate: "\<exists>k < line_count st. \<exists>dtg the_data actual_data checksum_text rest read_checksum.
            process_row lib cls (Suc k) (stream ! k) = Emitted p
            \<and> frame_row (stream ! k) = Inr (dtg, the_data)
            \<and> split_on CHR '':'' the_data = actual_data # checksum_text # rest
            \<and> py_int checksum_text = Some read_checksum
            \<and> good_checksum actual_data read_checksum
            \<and> good_field (split_on CHR '','' actual_data)
            \<and> generate_data_dict dtg (split_on CHR '','' actual_data) = Inr (raw_data p)"
    if "p \<in> set (record_buffer st)" for p
  proof -
    from that m(3) obtain j where j: "j < length (take m stream)"
      "process_row lib cls (Suc (0 + j)) (take m stream ! j) = Emitted p"
      using emitted_particles_mem [of p lib cls 0 "take m stream"] by auto
    then have jm: "j < m" and e: "process_row lib cls (Suc j) (stream ! j) = Emitted p"
      by simp_all
    from process_row_Emitted [OF e] obtain dtg the_data actual_data checksum_text rest read_checksum
      where "frame_row (stream ! j) = Inr (dtg, the_data)"
        "split_on CHR '':'' the_data = actual_data # checksum_text # rest"
        "py_int checksum_text = Some read_checksum"
        "good_checksum actual_data read_checksum"
        "good_field (split_on CHR '','' actual_data)"
        "generate_data_dict dtg (split_on CHR '','' actual_data) = Inr (raw_data p)"
      by blast
    with e jm m(2) show ?thesis by blast
  qed
  from m gate show ?thesis by blast
qed

theorem buffer_holds_validated_records_in_line_order_witness:
  "fst (parse_file exact_timelib FuelCellEngDclDataParticleRecovered
     [''2015/03/10 14:22:04.500 1,2:144 ab'',
      ''2015/03/10 14:22:05.500 0,0,0,0,0,0,0,0,0,0,0,0,0,0,0,0,0,0,0,0,0,0,0,0,0,0,0:2440 6d47'',
      ''2015/03/10 14:22:06.500 x No_FC_Data'',
      ''2015/03/10 14:22:07.500 1,0,0,0,0,0,0,0,0,0,0,0,0,0,0,0,0,0,0,0,0,0,0,0,0,0,0:2441 6d47'']) = None
   \<and> map internal_timestamp (record_buffer (snd (parse_file exact_timelib FuelCellEngDclDataParticleRecovered
     [''2015/03/10 14:22:04.500 1,2:144 ab'',
      ''2015/03/10 14:22:05.500 0,0,0,0,0,0,0,0,0,0,0,0,0,0,0,0,0,0,0,0,0,0,0,0,0,0,0:2440 6d47'',
      ''2015/03/10 14:22:06.500 x No_FC_Data'',
      ''2015/03/10 14:22:07.500 1,0,0,0,0,0,0,0,0,0,0,0,0,0,0,0,0,0,0,0,0,0,0,0,0,0,0:2441 6d47'']))) 
      = [3634986125500, 3634986127500]
   \<and> record_buffer (snd (parse_file exact_timelib FuelCellEngDclDataParticleRecovered
     [''2015/03/10 14:22:04.500 1,2:144 ab'',
      ''2015/03/10 14:22:05.500 0,0,0,0,0,0,0,0,0,0,0,0,0,0,0,0,0,0,0,0,0,0,0,0,0,0,0:2440 6d47'',
      ''2015/03/10 14:22:06.500 x No_FC_Data'',
      ''2015/03/10 14:22:07.500 1,0,0,0,0,0,0,0,0,0,0,0,0,0,0,0,0,0,0,0,0,0,0,0,0,0,0:2441 6d47'']))
     = emitted_particles exact_timelib FuelCellEngDclDataParticleRecovered 0
     [''2015/03/10 14:22:04.500 1,2:144 ab'',
      ''2015/03/10 14:22:05.500 0,0,0,0,0,0,0,0,0,0,0,0,0,0,0,0,0,0,0,0,0,0,0,0,0,0,0:2440 6d47'',
      ''2015/03/10 14:22:06.500 x No_FC_Data'',
      ''2015/03/10 14:22:07.500 1,0,0,0,0,0,0,0,0,0,0,0,0,0,0,0,0,0,0,0,0,0,0,0,0,0,0:2441 6d47'']"
  (is "fst (parse_file ?lib ?cls ?S) = None \<and> _ \<and> _")
proof -
  have a: "fst (parse_file ?lib ?cls ?S) = None"
    by code_simp
  have b: "line_count (snd (parse_file ?lib ?cls ?S)) = 4"
    by code_simp
  have c: "map internal_timestamp (record_buffer (snd (parse_file ?lib ?cls ?S)))
           = [3634986125500, 3634986127500]"
    by code_simp
  have d: "parse_file ?lib ?cls ?S = (fst (parse_file ?lib ?cls ?S), snd (parse_file ?lib ?cls ?S))"
    by simp
  have "record_buffer (snd (parse_file ?lib ?cls ?S))
        = emitted_particles ?lib ?cls 0 (take (line_count (snd (parse_file ?lib ?cls ?S))) ?S)"
    using buffer_holds_validated_records_in_line_order [OF d] by blast
  with a b c show ?thesis by simp
qed

section \<open>Warnings and outcomes of a line\<close>

lemma process_row_Warning:
  assumes "process_row lib cls n row = Warning msg_text k"
  shows "k = n \<and> msg_text \<in> set [''No fuel cell data on line'', ''Bad/Missing Timestamp on line'',
           ''No data found on line'', ''No terminator found on line'', ''Improper format line'',
           ''Bad checksum line'']"
proof (cases "frame_row row")
  case (Inl m)
  then have "m \<in> set [''No fuel cell data on line'', ''Bad/Missing Timestamp on line'',
           ''No data found on line'', ''No terminator found on line'']"
    by (auto simp: frame_row_def Let_def split: if_splits option.splits)
  with Inl assms show ?thesis by (auto simp: process_row_def)
next
  case (Inr res)
  obtain dtg the_data where "res = (dtg, the_data)" by (cases res)
  with Inr assms have "validate_data lib cls n dtg the_data = Warning msg_text k"
    by (simp add: process_row_def)
  then show ?thesis
    by (auto simp: validate_data_def Let_def split: list.splits option.splits if_splits sum.splits)
qed

text \<open>When \<open>parse_file\<close> ends without an exception, every line read has given one warning
  or one particle.\<close>

lemma parse_loop_one_outcome_per_line:
  "parse_loop lib cls st rows = (None, st') \<Longrightarrow>
   length (record_buffer st') + length (exception_callback st') + line_count st
   = length (record_buffer st) + length (exception_callback st) + line_count st'"
proof (induction rows arbitrary: st)
  case Nil
  then show ?case by simp
next
  case (Cons row rows)
  show ?case
  proof (cases "row = []")
    case True
    with Cons.prems show ?thesis by simp
  next
    case False
    show ?thesis
    proof (cases "process_row lib cls (Suc (line_count st)) row")
      case (Warning msg k)
      with False Cons.prems have
        "parse_loop lib cls (log_warning (st\<lparr>line_count := line_count st + 1\<rparr>) msg k) rows = (None, st')"
        by (simp add: Let_def)
      from Cons.IH [OF this] show ?thesis by (simp add: log_warning_def)
    next
      case (Emitted p)
      with False Cons.prems have
        "parse_loop lib cls (st\<lparr>line_count := line_count st + 1,
            record_buffer := record_buffer st @ [p]\<rparr>) rows = (None, st')"
        by (simp add: Let_def)
      from Cons.IH [OF this] show ?thesis by simp
    next
      case (Raised e)
      with False Cons.prems show ?thesis by (simp add: Let_def)
    qed
  qed
qed

section \<open>Lines that raise\<close>

text \<open>
  Claim C3 says that no line, however malformed, makes \<open>parse_file\<close> raise. It fails on a
  well-formed record with one space too many before the end of the line: the last piece
  of the split is the newline, the hexadecimal token is glued to the checksum, and \<open>int\<close>
  raises \<open>ValueError\<close> out of \<open>parse_file\<close>, with no warning given.
\<close>

theorem trailing_space_raises_ValueError:
  "frame_row (''2015/03/10 14:22:05.500 0,0,0,0,0,0,0,0,0,0,0,0,0,0,0,0,0,0,0,0,0,0,0,0,0,0,0:2440 6d47 '' @ [newline])
     = Inr (''2015/03/10 14:22:05.500'', ''0,0,0,0,0,0,0,0,0,0,0,0,0,0,0,0,0,0,0,0,0,0,0,0,0,0,0:24406d47'')
   \<and> py_int ''24406d47'' = None
   \<and> parse_file exact_timelib FuelCellEngDclDataParticleRecovered
       [''2015/03/10 14:22:05.500 0,0,0,0,0,0,0,0,0,0,0,0,0,0,0,0,0,0,0,0,0,0,0,0,0,0,0:2440 6d47 '' @ [newline]]
     = (Some ValueError, \<lparr>line_count = 1, record_buffer = [], exception_callback = []\<rparr>)"
  by code_simp

text \<open>
  Claim C2 says that every line yields exactly one warning or exactly one particle and
  has no effect on the lines after it. It fails on a line with two colons in its data:
  the line yields neither a warning nor a particle, and the well-formed line after it is
  never read, while alone it yields a particle.
\<close>

theorem raising_line_stops_later_lines:
  "process_row exact_timelib FuelCellEngDclDataParticleRecovered 1 ''2015/03/10 14:22:05.500 1,2::3 ab''
     = Raised ValueError
   \<and> parse_file exact_timelib FuelCellEngDclDataParticleRecovered
       [''2015/03/10 14:22:05.500 1,2::3 ab'',
        ''2015/03/10 14:22:05.500 0,0,0,0,0,0,0,0,0,0,0,0,0,0,0,0,0,0,0,0,0,0,0,0,0,0,0:2440 6d47'']
     = (Some ValueError, \<lparr>line_count = 1, record_buffer = [], exception_callback = []\<rparr>)
   \<and> length (record_buffer (snd (parse_file exact_timelib FuelCellEngDclDataParticleRecovered
       [''2015/03/10 14:22:05.500 0,0,0,0,0,0,0,0,0,0,0,0,0,0,0,0,0,0,0,0,0,0,0,0,0,0,0:2440 6d47'']))) = 1"
  by code_simp

text \<open>
  Claim C9 says that the callback is invoked exactly once for every malformed line and
  that the scan never halts. It fails on two malformed lines: the first gets its warning;
  the second, whose terminator is followed by further text after a space, gets none, and
  the scan ends with \<open>ValueError\<close>.
\<close>

theorem malformed_line_without_warning:
  "parse_file exact_timelib FuelCellEngDclDataParticleRecovered
       [''2015/03/10 14:22:06.500 x No_FC_Data'', ''2015/03/10 14:22:05.500 1,2:3 ab zz'']
     = (Some ValueError,
        \<lparr>line_count = 2, record_buffer = [],
         exception_callback =
           [RecoverableSampleException ''No fuel cell data on line %d - No particle generated'' 1]\<rparr>)"
  by code_simp

end
